theory Spec2Isabelle
  imports Main "HOL-Library.Word"
begin

section \<open>The critical section utility of LibOpenBLT (port/windows/critutil.c)\<close>

text \<open>
  The module keeps three file-scope variables: the flag
  \<^verbatim>\<open>criticalSectionInitialized\<close>, the counter \<^verbatim>\<open>criticalSectionNesting\<close> of type
  \<^verbatim>\<open>uint32_t\<close> and the Windows object \<^verbatim>\<open>criticalSection\<close>. Its four functions
  take no argument and return nothing; they are embedded as functions on a record of
  these three variables. Only one thread is modelled.
\<close>

subsection \<open>The operating system's critical section object\<close>

text \<open>
  Modelled from the spec: the native mutual-exclusion primitive of \<^verbatim>\<open>windows.h\<close>
  (type \<^verbatim>\<open>CRITICAL_SECTION\<close> with \<^verbatim>\<open>InitializeCriticalSection\<close>,
  \<^verbatim>\<open>DeleteCriticalSection\<close>, \<^verbatim>\<open>EnterCriticalSection\<close> and
  \<^verbatim>\<open>LeaveCriticalSection\<close>) is an external collaborator, "an opaque capability
  exposing initialize/destroy/acquire/release operations", to be observed through "an
  instrumentable fake lock that counts acquire/release calls". The object below is that
  fake lock as one thread sees it: whether it is constructed, how many acquisitions of
  the thread are outstanding (the Windows object is recursive, so the owning thread may
  acquire it again and must release it as often), and the log of all calls made on it.
  The lock is held when \<open>RecursionCount\<close> is positive.
\<close>

datatype os_call = CallInitialize | CallDelete | CallEnter | CallLeave

record CRITICAL_SECTION =
  constructed :: bool
  RecursionCount :: nat
  calls :: "os_call list"

definition InitializeCriticalSection :: "CRITICAL_SECTION \<Rightarrow> CRITICAL_SECTION" where
  "InitializeCriticalSection cs =
     cs\<lparr>constructed := True, RecursionCount := 0, calls := calls cs @ [CallInitialize]\<rparr>"

definition DeleteCriticalSection :: "CRITICAL_SECTION \<Rightarrow> CRITICAL_SECTION" where
  "DeleteCriticalSection cs =
     cs\<lparr>constructed := False, RecursionCount := 0, calls := calls cs @ [CallDelete]\<rparr>"

definition EnterCriticalSection :: "CRITICAL_SECTION \<Rightarrow> CRITICAL_SECTION" where
  "EnterCriticalSection cs =
     cs\<lparr>RecursionCount := RecursionCount cs + 1, calls := calls cs @ [CallEnter]\<rparr>"

text \<open>
  A release without an outstanding acquisition is outside the contract of the Windows
  object. The fake lock keeps its count at 0 there (subtraction on \<open>nat\<close>); the module
  never makes such a call: \<open>UtilCriticalSectionExit\<close> releases only from a nonzero
  nesting counter, and by \<open>run_held\<close> below the lock is then held.
\<close>

definition LeaveCriticalSection :: "CRITICAL_SECTION \<Rightarrow> CRITICAL_SECTION" where
  "LeaveCriticalSection cs =
     cs\<lparr>RecursionCount := RecursionCount cs - 1, calls := calls cs @ [CallLeave]\<rparr>"

definition held :: "CRITICAL_SECTION \<Rightarrow> bool" where
  "held cs \<longleftrightarrow> 0 < RecursionCount cs"

definition acquired :: "CRITICAL_SECTION \<Rightarrow> nat" where
  "acquired cs = count_list (calls cs) CallEnter"

definition released :: "CRITICAL_SECTION \<Rightarrow> nat" where
  "released cs = count_list (calls cs) CallLeave"

definition constructions :: "CRITICAL_SECTION \<Rightarrow> nat" where
  "constructions cs = count_list (calls cs) CallInitialize"

definition destructions :: "CRITICAL_SECTION \<Rightarrow> nat" where
  "destructions cs = count_list (calls cs) CallDelete"

subsection \<open>The module's state\<close>

record critutil =
  criticalSectionInitialized :: bool
  criticalSectionNesting :: "32 word"
  criticalSection :: CRITICAL_SECTION

text \<open>
  The state at program start: the flag has the initialiser \<^verbatim>\<open>false\<close>, the counter is
  a static without initialiser (zero in C) and the lock object is not constructed.
\<close>

definition startup :: critutil where
  "startup =
     \<lparr>criticalSectionInitialized = False, criticalSectionNesting = 0,
      criticalSection = \<lparr>constructed = False, RecursionCount = 0, calls = []\<rparr>\<rparr>"

subsection \<open>Assertions\<close>

text \<open>
  \<^verbatim>\<open>assert(e)\<close> of \<^verbatim>\<open>assert.h\<close> aborts the program when \<open>e\<close> is false, unless the
  file is compiled with \<^verbatim>\<open>NDEBUG\<close> (a release build), where it does nothing. The
  build is a parameter of the functions that assert; an abort is the error value.
\<close>

datatype error = AssertionFailed

definition assert_passes :: "bool \<Rightarrow> bool \<Rightarrow> bool" where
  "assert_passes NDEBUG e \<longleftrightarrow> NDEBUG \<or> e"

subsection \<open>The four functions\<close>

definition UtilCriticalSectionInit :: "critutil \<Rightarrow> critutil" where
  "UtilCriticalSectionInit s =
     (if \<not> criticalSectionInitialized s then
        s\<lparr>criticalSection := InitializeCriticalSection (criticalSection s),
          criticalSectionNesting := 0,
          criticalSectionInitialized := True\<rparr>
      else s)"

definition UtilCriticalSectionTerminate :: "critutil \<Rightarrow> critutil" where
  "UtilCriticalSectionTerminate s =
     (if criticalSectionInitialized s then
        s\<lparr>criticalSectionInitialized := False,
          criticalSectionNesting := 0,
          criticalSection := DeleteCriticalSection (criticalSection s)\<rparr>
      else s)"

definition UtilCriticalSectionEnter :: "bool \<Rightarrow> critutil \<Rightarrow> error + critutil" where
  "UtilCriticalSectionEnter NDEBUG s =
     (if \<not> assert_passes NDEBUG (criticalSectionInitialized s) then Inl AssertionFailed
      else if criticalSectionInitialized s then
        (let s1 = (if criticalSectionNesting s = 0
                   then s\<lparr>criticalSection := EnterCriticalSection (criticalSection s)\<rparr>
                   else s)
         in Inr (s1\<lparr>criticalSectionNesting := criticalSectionNesting s1 + 1\<rparr>))
      else Inr s)"

definition UtilCriticalSectionExit :: "bool \<Rightarrow> critutil \<Rightarrow> error + critutil" where
  "UtilCriticalSectionExit NDEBUG s =
     (if \<not> assert_passes NDEBUG (criticalSectionInitialized s) then Inl AssertionFailed
      else if criticalSectionInitialized s then
        (if \<not> assert_passes NDEBUG (criticalSectionNesting s > 0) then Inl AssertionFailed
         else if criticalSectionNesting s > 0 then
           (let s1 = s\<lparr>criticalSectionNesting := criticalSectionNesting s - 1\<rparr>
            in Inr (if criticalSectionNesting s1 = 0
                    then s1\<lparr>criticalSection := LeaveCriticalSection (criticalSection s1)\<rparr>
                    else s1))
         else Inr s)
      else Inr s)"

subsection \<open>Sequences of calls\<close>

text \<open>
  A caller's trace is a list of calls, run from left to right. An assertion that fails
  aborts the program, so the run stops there with the error.
\<close>

datatype api_call = Initialize | Terminate | Enter | Exit

fun call :: "bool \<Rightarrow> api_call \<Rightarrow> critutil \<Rightarrow> error + critutil" where
  "call NDEBUG Initialize s = Inr (UtilCriticalSectionInit s)"
| "call NDEBUG Terminate s = Inr (UtilCriticalSectionTerminate s)"
| "call NDEBUG Enter s = UtilCriticalSectionEnter NDEBUG s"
| "call NDEBUG Exit s = UtilCriticalSectionExit NDEBUG s"

fun run :: "bool \<Rightarrow> api_call list \<Rightarrow> critutil \<Rightarrow> error + critutil" where
  "run NDEBUG [] s = Inr s"
| "run NDEBUG (c # cs) s =
     (case call NDEBUG c s of Inl e \<Rightarrow> Inl e | Inr s' \<Rightarrow> run NDEBUG cs s')"

subsection \<open>The invariants of the data model\<close>

text \<open>
  The invariant as the specification words it: a positive nesting counter means that the
  lock is held with exactly one outstanding acquisition, and an uninitialised module has
  nesting 0 and no constructed lock.
\<close>

definition spec_invariant :: "critutil \<Rightarrow> bool" where
  "spec_invariant s \<longleftrightarrow>
     (criticalSectionNesting s > 0 \<longrightarrow> RecursionCount (criticalSection s) = 1) \<and>
     (\<not> criticalSectionInitialized s \<longrightarrow>
        criticalSectionNesting s = 0 \<and> \<not> constructed (criticalSection s))"

text \<open>The same with "held" in place of "held exactly once".\<close>

definition held_invariant :: "critutil \<Rightarrow> bool" where
  "held_invariant s \<longleftrightarrow>
     (criticalSectionNesting s > 0 \<longrightarrow> held (criticalSection s)) \<and>
     (\<not> criticalSectionInitialized s \<longrightarrow>
        criticalSectionNesting s = 0 \<and> \<not> constructed (criticalSection s))"

text \<open>
  The counter does not overflow along a trace: no Enter is called on an initialised
  module whose counter is at its largest value \<open>2 ^ 32 - 1\<close> (the word \<open>- 1\<close>).
\<close>

fun no_overflow :: "bool \<Rightarrow> api_call list \<Rightarrow> critutil \<Rightarrow> bool" where
  "no_overflow NDEBUG [] s = True"
| "no_overflow NDEBUG (c # cs) s =
     (\<not> (c = Enter \<and> criticalSectionInitialized s \<and> criticalSectionNesting s = - 1) \<and>
      (case call NDEBUG c s of Inl e \<Rightarrow> True | Inr s' \<Rightarrow> no_overflow NDEBUG cs s'))"

section \<open>Single calls and runs of one call\<close>

lemma Enter_initialized:
  "criticalSectionInitialized s \<Longrightarrow>
   UtilCriticalSectionEnter NDEBUG s =
     Inr (s\<lparr>criticalSection :=
              (if criticalSectionNesting s = 0 then EnterCriticalSection (criticalSection s)
               else criticalSection s),
            criticalSectionNesting := criticalSectionNesting s + 1\<rparr>)"
  by (simp add: UtilCriticalSectionEnter_def assert_passes_def)

lemma Exit_positive:
  "criticalSectionInitialized s \<Longrightarrow> criticalSectionNesting s \<noteq> 0 \<Longrightarrow>
   UtilCriticalSectionExit NDEBUG s =
     Inr (s\<lparr>criticalSectionNesting := criticalSectionNesting s - 1,
            criticalSection :=
              (if criticalSectionNesting s = 1 then LeaveCriticalSection (criticalSection s)
               else criticalSection s)\<rparr>)"
  by (simp add: UtilCriticalSectionExit_def assert_passes_def word_greater_zero_iff)

lemma Exit_zero_release:
  "criticalSectionNesting s = 0 \<Longrightarrow> UtilCriticalSectionExit True s = Inr s"
  by (simp add: UtilCriticalSectionExit_def assert_passes_def)

lemma replicate_first: "0 < n \<Longrightarrow> replicate n x = x # replicate (n - 1) x"
  by (cases n) simp_all

lemma replicate_last: "replicate (n + 1) x = replicate n x @ [x]"
  by (simp add: replicate_append_same)

lemma run_append:
  "run NDEBUG (xs @ ys) s =
     (case run NDEBUG xs s of Inl e \<Rightarrow> Inl e | Inr s' \<Rightarrow> run NDEBUG ys s')"
  by (induction xs arbitrary: s) (auto split: sum.splits)

lemma enters_nowrap:
  "criticalSectionInitialized s \<Longrightarrow> criticalSectionNesting s \<noteq> 0 \<Longrightarrow>
   unat (criticalSectionNesting s) + k \<le> 2 ^ 32 \<Longrightarrow>
   run NDEBUG (replicate k Enter) s =
     Inr (s\<lparr>criticalSectionNesting := criticalSectionNesting s + of_nat k\<rparr>)"
proof (induction k arbitrary: s)
  case 0
  then show ?case by simp
next
  case (Suc k)
  let ?s1 = "s\<lparr>criticalSectionNesting := criticalSectionNesting s + 1\<rparr>"
  have step: "UtilCriticalSectionEnter NDEBUG s = Inr ?s1"
    using Suc.prems by (simp add: Enter_initialized)
  show ?case
  proof (cases k)
    case 0
    then show ?thesis using step by simp
  next
    case (Suc k')
    have lt: "unat (criticalSectionNesting s) + 1 < 2 ^ 32"
      using Suc.prems(3) Suc by simp
    then have u: "unat (criticalSectionNesting s + 1) = unat (criticalSectionNesting s) + 1"
      by (simp add: unat_word_ariths)
    then have nz: "criticalSectionNesting ?s1 \<noteq> 0"
      by auto
    have "run NDEBUG (replicate k Enter) ?s1 =
            Inr (?s1\<lparr>criticalSectionNesting := criticalSectionNesting ?s1 + of_nat k\<rparr>)"
      using Suc.prems u nz by (intro Suc.IH) simp_all
    then show ?thesis using step by (simp add: add.assoc add.commute)
  qed
qed


lemma enters_from_zero:
  assumes "criticalSectionInitialized s" and "criticalSectionNesting s = 0"
    and "1 \<le> k" and "k \<le> 2 ^ 32"
  shows "run NDEBUG (replicate k Enter) s =
     Inr (s\<lparr>criticalSection := EnterCriticalSection (criticalSection s),
            criticalSectionNesting := of_nat k\<rparr>)"
proof -
  obtain k' where k: "k = Suc k'"
    using assms(3) by (cases k) simp_all
  let ?s1 = "s\<lparr>criticalSection := EnterCriticalSection (criticalSection s),
               criticalSectionNesting := 1\<rparr>"
  have step: "UtilCriticalSectionEnter NDEBUG s = Inr ?s1"
    using assms(1,2) by (simp add: Enter_initialized)
  have "run NDEBUG (replicate k' Enter) ?s1 =
          Inr (?s1\<lparr>criticalSectionNesting := criticalSectionNesting ?s1 + of_nat k'\<rparr>)"
    using assms(1,4) k by (intro enters_nowrap) simp_all
  then show ?thesis
    using step k by (simp add: add.commute)
qed

lemma enters_nesting:
  "criticalSectionInitialized s \<Longrightarrow>
   \<exists>s'. run NDEBUG (replicate k Enter) s = Inr s' \<and> criticalSectionInitialized s' \<and>
        criticalSectionNesting s' = criticalSectionNesting s + of_nat k"
proof (induction k arbitrary: s)
  case 0
  then show ?case by simp
next
  case (Suc k)
  let ?s1 = "s\<lparr>criticalSection :=
              (if criticalSectionNesting s = 0 then EnterCriticalSection (criticalSection s)
               else criticalSection s),
            criticalSectionNesting := criticalSectionNesting s + 1\<rparr>"
  have step: "UtilCriticalSectionEnter NDEBUG s = Inr ?s1"
    using Suc.prems by (rule Enter_initialized)
  have "criticalSectionInitialized ?s1"
    using Suc.prems by simp
  from Suc.IH [OF this] obtain s' where
    "run NDEBUG (replicate k Enter) ?s1 = Inr s'" "criticalSectionInitialized s'"
    "criticalSectionNesting s' = criticalSectionNesting ?s1 + of_nat k"
    by blast
  then show ?case
    using step by (simp add: add.assoc add.commute)
qed

lemma exits_nowrap:
  "criticalSectionInitialized s \<Longrightarrow> j < unat (criticalSectionNesting s) \<Longrightarrow>
   run NDEBUG (replicate j Exit) s =
     Inr (s\<lparr>criticalSectionNesting := criticalSectionNesting s - of_nat j\<rparr>)"
proof (induction j arbitrary: s)
  case 0
  then show ?case by simp
next
  case (Suc j)
  let ?s1 = "s\<lparr>criticalSectionNesting := criticalSectionNesting s - 1\<rparr>"
  have gt: "1 < unat (criticalSectionNesting s)"
    using Suc.prems(2) by simp
  then have n0: "criticalSectionNesting s \<noteq> 0" and n1: "criticalSectionNesting s \<noteq> 1"
    by auto
  have step: "UtilCriticalSectionExit NDEBUG s = Inr ?s1"
    using Suc.prems(1) n0 n1 by (simp add: Exit_positive)
  have u: "unat (criticalSectionNesting s - 1) = unat (criticalSectionNesting s) - 1"
    using n0 by (simp add: unat_minus_one)
  have "run NDEBUG (replicate j Exit) ?s1 =
          Inr (?s1\<lparr>criticalSectionNesting := criticalSectionNesting ?s1 - of_nat j\<rparr>)"
    using Suc.prems u by (intro Suc.IH) simp_all
  then show ?case
    using step by (simp add: diff_diff_eq)
qed

lemma exits_to_zero:
  assumes "criticalSectionInitialized s" and "unat (criticalSectionNesting s) = j"
    and "1 \<le> j"
  shows "run NDEBUG (replicate j Exit) s =
     Inr (s\<lparr>criticalSectionNesting := 0,
            criticalSection := LeaveCriticalSection (criticalSection s)\<rparr>)"
proof -
  obtain i where j: "j = Suc i"
    using assms(3) by (cases j) simp_all
  let ?s1 = "s\<lparr>criticalSectionNesting := criticalSectionNesting s - of_nat i\<rparr>"
  have first: "run NDEBUG (replicate i Exit) s = Inr ?s1"
    using assms(1,2) j by (intro exits_nowrap) simp_all
  have "of_nat (unat (criticalSectionNesting s)) = (of_nat (Suc i) :: 32 word)"
    using assms(2) j by simp
  then have one: "criticalSectionNesting ?s1 = 1"
    by simp
  have last: "UtilCriticalSectionExit NDEBUG ?s1 =
     Inr (s\<lparr>criticalSectionNesting := 0,
            criticalSection := LeaveCriticalSection (criticalSection s)\<rparr>)"
    using assms(1) one by (simp add: Exit_positive)
  have "run NDEBUG (replicate i Exit @ [Exit]) s =
     Inr (s\<lparr>criticalSectionNesting := 0,
            criticalSection := LeaveCriticalSection (criticalSection s)\<rparr>)"
    using first last by (simp add: run_append)
  moreover have "replicate j Exit = replicate i Exit @ [Exit]"
    unfolding j by (simp add: replicate_append_same)
  ultimately show ?thesis
    by simp
qed

lemma exits_at_zero_release:
  "criticalSectionNesting s = 0 \<Longrightarrow> run True (replicate j Exit) s = Inr s"
  by (induction j) (simp_all add: Exit_zero_release)

section \<open>Invariants along a run\<close>

lemma call_held:
  assumes "call NDEBUG c s = Inr s'"
    and "criticalSectionInitialized s \<longrightarrow> constructed (criticalSection s)"
    and "criticalSectionNesting s \<noteq> 0 \<longrightarrow> 0 < RecursionCount (criticalSection s)"
    and "\<not> criticalSectionInitialized s \<longrightarrow>
           criticalSectionNesting s = 0 \<and> \<not> constructed (criticalSection s)"
  shows "(criticalSectionInitialized s' \<longrightarrow> constructed (criticalSection s')) \<and>
         (criticalSectionNesting s' \<noteq> 0 \<longrightarrow> 0 < RecursionCount (criticalSection s')) \<and>
         (\<not> criticalSectionInitialized s' \<longrightarrow>
            criticalSectionNesting s' = 0 \<and> \<not> constructed (criticalSection s'))"
proof (cases c)
  case Initialize
  then show ?thesis
    using assms by (auto simp: UtilCriticalSectionInit_def InitializeCriticalSection_def)
next
  case Terminate
  then show ?thesis
    using assms by (auto simp: UtilCriticalSectionTerminate_def DeleteCriticalSection_def)
next
  case Enter
  then show ?thesis
    using assms
    by (auto simp: UtilCriticalSectionEnter_def EnterCriticalSection_def Let_def
        split: if_splits)
next
  case Exit
  then show ?thesis
    using assms
    by (auto simp: UtilCriticalSectionExit_def LeaveCriticalSection_def Let_def
        word_greater_zero_iff split: if_splits)
qed

lemma run_held:
  "run NDEBUG cs s = Inr s' \<Longrightarrow>
   criticalSectionInitialized s \<longrightarrow> constructed (criticalSection s) \<Longrightarrow>
   criticalSectionNesting s \<noteq> 0 \<longrightarrow> 0 < RecursionCount (criticalSection s) \<Longrightarrow>
   \<not> criticalSectionInitialized s \<longrightarrow>
      criticalSectionNesting s = 0 \<and> \<not> constructed (criticalSection s) \<Longrightarrow>
   (criticalSectionInitialized s' \<longrightarrow> constructed (criticalSection s')) \<and>
   (criticalSectionNesting s' \<noteq> 0 \<longrightarrow> 0 < RecursionCount (criticalSection s')) \<and>
   (\<not> criticalSectionInitialized s' \<longrightarrow>
      criticalSectionNesting s' = 0 \<and> \<not> constructed (criticalSection s'))"
proof (induction cs arbitrary: s)
  case Nil
  then show ?case by simp
next
  case (Cons c cs)
  from Cons.prems(1) obtain s1 where c: "call NDEBUG c s = Inr s1"
    and r: "run NDEBUG cs s1 = Inr s'"
    by (auto split: sum.splits)
  from call_held [OF c Cons.prems(2,3,4)] show ?case
    by (intro Cons.IH [OF r]) simp_all
qed

lemma call_bound:
  assumes "call NDEBUG c s = Inr s'" and "unat (criticalSectionNesting s) \<le> n"
  shows "unat (criticalSectionNesting s') \<le> Suc n"
proof (cases c)
  case Initialize
  then show ?thesis
    using assms by (auto simp: UtilCriticalSectionInit_def split: if_splits)
next
  case Terminate
  then show ?thesis
    using assms by (auto simp: UtilCriticalSectionTerminate_def split: if_splits)
next
  case Enter
  have "unat (criticalSectionNesting s + 1) \<le> unat (criticalSectionNesting s) + 1"
    by (simp add: unat_word_ariths)
  then show ?thesis
    using assms Enter
    by (auto simp: UtilCriticalSectionEnter_def Let_def split: if_splits)
next
  case Exit
  have "unat (criticalSectionNesting s - 1) \<le> unat (criticalSectionNesting s)"
    if "criticalSectionNesting s \<noteq> 0"
    using that by (simp add: unat_minus_one)
  then show ?thesis
    using assms Exit
    by (auto simp: UtilCriticalSectionExit_def Let_def word_greater_zero_iff split: if_splits)
qed

lemma short_no_overflow:
  "unat (criticalSectionNesting s) \<le> n \<Longrightarrow> n + length cs < 2 ^ 32 \<Longrightarrow>
   no_overflow NDEBUG cs s"
proof (induction cs arbitrary: s n)
  case Nil
  then show ?case by simp
next
  case (Cons c cs)
  have "unat (- 1 :: 32 word) = 2 ^ 32 - 1"
    by (simp add: unsigned_minus_1_eq_mask mask_eq_exp_minus_1)
  then have "unat (criticalSectionNesting s) \<noteq> unat (- 1 :: 32 word)"
    using Cons.prems by simp
  then have m: "criticalSectionNesting s \<noteq> - 1"
    by auto
  have "no_overflow NDEBUG cs s'" if "call NDEBUG c s = Inr s'" for s'
  proof (rule Cons.IH)
    show "unat (criticalSectionNesting s') \<le> Suc n"
      using that Cons.prems(1) by (rule call_bound)
    show "Suc n + length cs < 2 ^ 32"
      using Cons.prems(2) by simp
  qed
  then show ?case
    using m by (simp split: sum.splits)
qed

lemma call_once:
  assumes "call NDEBUG c s = Inr s'"
    and "\<not> (c = Enter \<and> criticalSectionInitialized s \<and> criticalSectionNesting s = - 1)"
    and "RecursionCount (criticalSection s) = (if criticalSectionNesting s = 0 then 0 else 1)"
  shows "RecursionCount (criticalSection s') = (if criticalSectionNesting s' = 0 then 0 else 1)"
proof (cases c)
  case Initialize
  then show ?thesis
    using assms
    by (auto simp: UtilCriticalSectionInit_def InitializeCriticalSection_def split: if_splits)
next
  case Terminate
  then show ?thesis
    using assms
    by (auto simp: UtilCriticalSectionTerminate_def DeleteCriticalSection_def
        split: if_splits)
next
  case Enter
  have "criticalSectionNesting s + 1 \<noteq> 0" if "criticalSectionNesting s \<noteq> - 1"
    using that by (simp add: add_eq_0_iff2)
  then show ?thesis
    using assms Enter
    by (auto simp: UtilCriticalSectionEnter_def EnterCriticalSection_def Let_def
        split: if_splits)
next
  case Exit
  then show ?thesis
    using assms
    by (auto simp: UtilCriticalSectionExit_def LeaveCriticalSection_def Let_def
        word_greater_zero_iff split: if_splits)
qed

lemma run_once:
  "run NDEBUG cs s = Inr s' \<Longrightarrow> no_overflow NDEBUG cs s \<Longrightarrow>
   RecursionCount (criticalSection s) = (if criticalSectionNesting s = 0 then 0 else 1) \<Longrightarrow>
   RecursionCount (criticalSection s') = (if criticalSectionNesting s' = 0 then 0 else 1)"
proof (induction cs arbitrary: s)
  case Nil
  then show ?case by simp
next
  case (Cons c cs)
  from Cons.prems(1) obtain s1 where c: "call NDEBUG c s = Inr s1"
    and r: "run NDEBUG cs s1 = Inr s'"
    by (auto split: sum.splits)
  have n: "\<not> (c = Enter \<and> criticalSectionInitialized s \<and> criticalSectionNesting s = - 1)"
    and o: "no_overflow NDEBUG cs s1"
    using Cons.prems(2) c by simp_all
  from r o call_once [OF c n Cons.prems(3)] show ?case
    by (rule Cons.IH)
qed

section \<open>Nested Enter/Exit pairs\<close>

text \<open>
  Claim C1, as amended. For every \<open>N\<close> with \<open>1 \<le> N < 2 ^ 32\<close>, starting from the
  state \<open>s\<close> immediately after one effective Initialize (initialized, nesting 0, lock
  not held), \<open>N\<close> Enter calls followed by \<open>N\<close> Exit calls acquire the lock exactly once,
  on the first Enter (after any \<open>k\<close> of the Enters, \<open>1 \<le> k \<le> N\<close>, the lock has been
  acquired once and the counter is \<open>k\<close>), release it exactly once, on the last Exit
  (after the \<open>N\<close> Enters and any \<open>j < N\<close> of the Exits the lock has not been released
  and the counter is \<open>N - j\<close>), and leave nesting back at 0 with the lock not held: the
  log of the lock grows by one acquire followed by one release. No assertion fails, so
  this holds in debug and in release builds.
\<close>

theorem enter_exit_roundtrip:
  assumes "\<not> criticalSectionInitialized s0" and "s = UtilCriticalSectionInit s0"
    and "1 \<le> N" and "N < 2 ^ 32"
  shows "criticalSectionInitialized s \<and> criticalSectionNesting s = 0 \<and>
    \<not> held (criticalSection s) \<and>
    (\<forall>k. 1 \<le> k \<and> k \<le> N \<longrightarrow>
       run NDEBUG (replicate k Enter) s =
         Inr (s\<lparr>criticalSection := EnterCriticalSection (criticalSection s),
                criticalSectionNesting := of_nat k\<rparr>)) \<and>
    (\<forall>j. j < N \<longrightarrow>
       run NDEBUG (replicate N Enter @ replicate j Exit) s =
         Inr (s\<lparr>criticalSection := EnterCriticalSection (criticalSection s),
                criticalSectionNesting := of_nat (N - j)\<rparr>)) \<and>
    run NDEBUG (replicate N Enter @ replicate N Exit) s =
      Inr (s\<lparr>criticalSection :=
               LeaveCriticalSection (EnterCriticalSection (criticalSection s))\<rparr>) \<and>
    calls (LeaveCriticalSection (EnterCriticalSection (criticalSection s))) =
      calls (criticalSection s) @ [CallEnter, CallLeave] \<and>
    acquired (LeaveCriticalSection (EnterCriticalSection (criticalSection s))) =
      acquired (criticalSection s) + 1 \<and>
    released (LeaveCriticalSection (EnterCriticalSection (criticalSection s))) =
      released (criticalSection s) + 1 \<and>
    \<not> held (LeaveCriticalSection (EnterCriticalSection (criticalSection s)))"
proof -
  have i: "criticalSectionInitialized s" and z: "criticalSectionNesting s = 0"
    and u: "RecursionCount (criticalSection s) = 0"
    using assms(1,2) by (simp_all add: UtilCriticalSectionInit_def InitializeCriticalSection_def)
  let ?e = "\<lambda>k. s\<lparr>criticalSection := EnterCriticalSection (criticalSection s),
                 criticalSectionNesting := of_nat k\<rparr>"
  have enters: "run NDEBUG (replicate k Enter) s = Inr (?e k)" if "1 \<le> k" "k \<le> N" for k
    using i z that assms(4) by (intro enters_from_zero) simp_all
  have un: "unat (of_nat N :: 32 word) = N"
    using assms(4) by (simp add: unat_of_nat)
  have exits: "run NDEBUG (replicate N Enter @ replicate j Exit) s = Inr (?e (N - j))"
    if "j < N" for j
  proof -
    have "run NDEBUG (replicate j Exit) (?e N) =
            Inr ((?e N)\<lparr>criticalSectionNesting := criticalSectionNesting (?e N) - of_nat j\<rparr>)"
      using i that un by (intro exits_nowrap) simp_all
    then show ?thesis
      using enters [of N] assms(3) that by (simp add: run_append of_nat_diff)
  qed
  have "run NDEBUG (replicate N Exit) (?e N) =
          Inr ((?e N)\<lparr>criticalSectionNesting := 0,
                 criticalSection := LeaveCriticalSection (criticalSection (?e N))\<rparr>)"
    using i un assms(3) by (intro exits_to_zero) simp_all
  then have all: "run NDEBUG (replicate N Enter @ replicate N Exit) s =
      Inr (s\<lparr>criticalSection :=
               LeaveCriticalSection (EnterCriticalSection (criticalSection s))\<rparr>)"
    using enters [of N] assms(3) z by (simp add: run_append)
  show ?thesis
    using i z u enters exits all
    by (simp add: held_def acquired_def released_def EnterCriticalSection_def
        LeaveCriticalSection_def)
qed

text \<open>
  The instance \<open>N = 2\<close> of C1 from program start, \<^verbatim>\<open>Enter();Enter();Exit();Exit();\<close>
  after Initialize, with the states after the first Enter and before the last Exit.
\<close>

theorem enter_exit_roundtrip_witness:
  "run False [Enter, Enter, Exit, Exit] (UtilCriticalSectionInit startup) =
     Inr \<lparr>criticalSectionInitialized = True, criticalSectionNesting = 0,
          criticalSection =
            \<lparr>constructed = True, RecursionCount = 0,
             calls = [CallInitialize, CallEnter, CallLeave]\<rparr>\<rparr> \<and>
   run False [Enter] (UtilCriticalSectionInit startup) =
     Inr \<lparr>criticalSectionInitialized = True, criticalSectionNesting = 1,
          criticalSection =
            \<lparr>constructed = True, RecursionCount = 1,
             calls = [CallInitialize, CallEnter]\<rparr>\<rparr> \<and>
   run False [Enter, Enter, Exit] (UtilCriticalSectionInit startup) =
     Inr \<lparr>criticalSectionInitialized = True, criticalSectionNesting = 1,
          criticalSection =
            \<lparr>constructed = True, RecursionCount = 1,
             calls = [CallInitialize, CallEnter]\<rparr>\<rparr>"
proof -
  let ?s = "UtilCriticalSectionInit startup"
  let ?e = "EnterCriticalSection (criticalSection ?s)"
  have h: "\<not> criticalSectionInitialized startup" "(1::nat) \<le> 2" "(2::nat) < 2 ^ 32"
    by (simp_all add: startup_def)
  note t = enter_exit_roundtrip [OF h(1) refl h(2,3), of False]
  from t have a: "run False (replicate 2 Enter @ replicate 2 Exit) ?s =
      Inr (?s\<lparr>criticalSection := LeaveCriticalSection ?e\<rparr>)"
    by blast
  from t have "\<forall>k. 1 \<le> k \<and> k \<le> 2 \<longrightarrow> run False (replicate k Enter) ?s =
      Inr (?s\<lparr>criticalSection := ?e, criticalSectionNesting := of_nat k\<rparr>)"
    by blast
  then have b: "run False (replicate 1 Enter) ?s =
      Inr (?s\<lparr>criticalSection := ?e, criticalSectionNesting := of_nat 1\<rparr>)"
    by (rule allE [of _ 1]) simp
  from t have "\<forall>j. j < 2 \<longrightarrow> run False (replicate 2 Enter @ replicate j Exit) ?s =
      Inr (?s\<lparr>criticalSection := ?e, criticalSectionNesting := of_nat (2 - j)\<rparr>)"
    by blast
  then have c: "run False (replicate 2 Enter @ replicate 1 Exit) ?s =
      Inr (?s\<lparr>criticalSection := ?e, criticalSectionNesting := of_nat (2 - 1)\<rparr>)"
    by (rule allE [of _ 1]) simp
  have r: "replicate 2 Enter @ replicate 2 Exit = [Enter, Enter, Exit, Exit]"
    "replicate 1 Enter = [Enter]" "replicate 2 Enter @ replicate 1 Exit = [Enter, Enter, Exit]"
    by (simp_all add: numeral_2_eq_2)
  have v: "?s = \<lparr>criticalSectionInitialized = True, criticalSectionNesting = 0,
      criticalSection = \<lparr>constructed = True, RecursionCount = 0, calls = [CallInitialize]\<rparr>\<rparr>"
    by (simp add: UtilCriticalSectionInit_def startup_def InitializeCriticalSection_def)
  show ?thesis
    using a b c unfolding r v
    by (simp add: EnterCriticalSection_def LeaveCriticalSection_def)
qed

text \<open>
  Claim C1 as stated, for every \<open>N \<ge> 1\<close>, fails at \<open>N = 2 ^ 32\<close>: the counter is a
  \<^verbatim>\<open>uint32_t\<close> and is back at 0 after \<open>2 ^ 32\<close> Enter calls. In a release build
  every Exit that follows finds nesting 0 and does nothing, so the lock is acquired once,
  never released and still held at the end; in a debug build the first Exit aborts at
  \<^verbatim>\<open>assert(criticalSectionNesting > 0)\<close>.
\<close>

theorem enter_exit_roundtrip_counterexample:
  "run True (replicate (2 ^ 32) Enter @ replicate (2 ^ 32) Exit) (UtilCriticalSectionInit startup) =
     Inr \<lparr>criticalSectionInitialized = True, criticalSectionNesting = 0,
          criticalSection =
            \<lparr>constructed = True, RecursionCount = 1,
             calls = [CallInitialize, CallEnter]\<rparr>\<rparr> \<and>
   run False (replicate (2 ^ 32) Enter @ replicate (2 ^ 32) Exit) (UtilCriticalSectionInit startup) =
     Inl AssertionFailed"
proof -
  let ?s = "UtilCriticalSectionInit startup"
  let ?t = "\<lparr>criticalSectionInitialized = True, criticalSectionNesting = 0,
          criticalSection =
            \<lparr>constructed = True, RecursionCount = 1,
             calls = [CallInitialize, CallEnter]\<rparr>\<rparr>"
  have v: "?s = \<lparr>criticalSectionInitialized = True, criticalSectionNesting = 0,
          criticalSection =
            \<lparr>constructed = True, RecursionCount = 0,
             calls = [CallInitialize]\<rparr>\<rparr>"
    by (simp add: UtilCriticalSectionInit_def startup_def InitializeCriticalSection_def)
  have "run NDEBUG (replicate (2 ^ 32) Enter) ?s =
     Inr (?s\<lparr>criticalSection := EnterCriticalSection (criticalSection ?s),
            criticalSectionNesting := of_nat (2 ^ 32)\<rparr>)" for NDEBUG
    by (intro enters_from_zero) (simp_all add: v)
  then have e: "run NDEBUG (replicate (2 ^ 32) Enter) ?s = Inr ?t" for NDEBUG
    by (simp add: v EnterCriticalSection_def)
  have x: "run True (replicate (2 ^ 32) Exit) ?t = Inr ?t"
    by (intro exits_at_zero_release) simp
  have "replicate (2 ^ 32) Exit = Exit # replicate (2 ^ 32 - 1) Exit"
    by (rule replicate_first) simp
  moreover have "UtilCriticalSectionExit False ?t = Inl AssertionFailed"
    by (simp add: UtilCriticalSectionExit_def assert_passes_def)
  ultimately have y: "run False (replicate (2 ^ 32) Exit) ?t = Inl AssertionFailed"
    by simp
  show ?thesis
    using e x y by (simp add: run_append)
qed

section \<open>A single Enter\<close>

text \<open>
  Claim C2. On an initialised module Enter returns normally in either build, acquires
  the lock if and only if the nesting counter is 0, and then increments the counter by
  one in every case (the \<^verbatim>\<open>++\<close> of a \<^verbatim>\<open>uint32_t\<close>, so modulo \<open>2 ^ 32\<close>); when
  the counter was greater than 0 no call is made on the lock.
\<close>

theorem Enter_acquires_iff_nesting_zero:
  assumes "criticalSectionInitialized s"
  shows "\<exists>s'. UtilCriticalSectionEnter NDEBUG s = Inr s' \<and>
    criticalSectionInitialized s' \<and>
    criticalSectionNesting s' = criticalSectionNesting s + 1 \<and>
    unat (criticalSectionNesting s') = (unat (criticalSectionNesting s) + 1) mod 2 ^ 32 \<and>
    criticalSection s' =
      (if criticalSectionNesting s = 0 then EnterCriticalSection (criticalSection s)
       else criticalSection s) \<and>
    (acquired (criticalSection s') = acquired (criticalSection s) + 1
       \<longleftrightarrow> criticalSectionNesting s = 0) \<and>
    (criticalSectionNesting s > 0 \<longrightarrow>
       calls (criticalSection s') = calls (criticalSection s) \<and>
       acquired (criticalSection s') = acquired (criticalSection s))"
  using assms
  by (simp add: Enter_initialized acquired_def EnterCriticalSection_def unat_word_ariths
      word_greater_zero_iff)

text \<open>
  C2 at the two kinds of state: the first Enter after Initialize acquires the lock, the
  second Enter only counts.
\<close>

theorem Enter_acquires_iff_nesting_zero_witness:
  "UtilCriticalSectionEnter False
     \<lparr>criticalSectionInitialized = True, criticalSectionNesting = 0,
      criticalSection = \<lparr>constructed = True, RecursionCount = 0, calls = [CallInitialize]\<rparr>\<rparr> =
   Inr \<lparr>criticalSectionInitialized = True, criticalSectionNesting = 1,
        criticalSection =
          \<lparr>constructed = True, RecursionCount = 1, calls = [CallInitialize, CallEnter]\<rparr>\<rparr> \<and>
   UtilCriticalSectionEnter False
     \<lparr>criticalSectionInitialized = True, criticalSectionNesting = 1,
      criticalSection =
        \<lparr>constructed = True, RecursionCount = 1, calls = [CallInitialize, CallEnter]\<rparr>\<rparr> =
   Inr \<lparr>criticalSectionInitialized = True, criticalSectionNesting = 2,
        criticalSection =
          \<lparr>constructed = True, RecursionCount = 1, calls = [CallInitialize, CallEnter]\<rparr>\<rparr>"
proof -
  let ?a = "\<lparr>criticalSectionInitialized = True, criticalSectionNesting = 0,
      criticalSection = \<lparr>constructed = True, RecursionCount = 0, calls = [CallInitialize]\<rparr>\<rparr>"
  let ?b = "\<lparr>criticalSectionInitialized = True, criticalSectionNesting = 1,
      criticalSection =
        \<lparr>constructed = True, RecursionCount = 1, calls = [CallInitialize, CallEnter]\<rparr>\<rparr>"
  have "criticalSectionInitialized ?a" and "criticalSectionInitialized ?b"
    by simp_all
  from this [THEN Enter_acquires_iff_nesting_zero, of False]
  show ?thesis
    by (auto simp: EnterCriticalSection_def)
qed

section \<open>The invariants in every reachable state\<close>

text \<open>
  Claim C3, as amended. In every state \<open>s\<close> reached from the state at program start by
  any sequence of Initialize, Terminate, Enter and Exit calls: a positive nesting counter
  implies that the lock is held, and a module that is not initialised has nesting 0 and
  no constructed lock (\<open>held_invariant\<close>). When the counter has not overflowed on the way,
  which is so for every sequence of fewer than \<open>2 ^ 32\<close> calls, the lock is moreover held
  with exactly one outstanding acquisition (\<open>spec_invariant\<close>, the invariant as the
  specification words it).
\<close>

theorem reachable_invariant:
  assumes "run NDEBUG cs startup = Inr s"
  shows "held_invariant s \<and>
    (no_overflow NDEBUG cs startup \<longrightarrow> spec_invariant s) \<and>
    (length cs < 2 ^ 32 \<longrightarrow> no_overflow NDEBUG cs startup)"
proof -
  have w: "(criticalSectionInitialized s \<longrightarrow> constructed (criticalSection s)) \<and>
      (criticalSectionNesting s \<noteq> 0 \<longrightarrow> 0 < RecursionCount (criticalSection s)) \<and>
      (\<not> criticalSectionInitialized s \<longrightarrow>
         criticalSectionNesting s = 0 \<and> \<not> constructed (criticalSection s))"
    using assms by (rule run_held) (simp_all add: startup_def)
  have x: "RecursionCount (criticalSection s) = (if criticalSectionNesting s = 0 then 0 else 1)"
    if "no_overflow NDEBUG cs startup"
    using assms that by (rule run_once) (simp add: startup_def)
  have y: "no_overflow NDEBUG cs startup" if "length cs < 2 ^ 32"
    using that by (intro short_no_overflow [of _ 0]) (simp_all add: startup_def)
  show ?thesis
    using w x y
    by (auto simp: held_invariant_def spec_invariant_def held_def word_greater_zero_iff)
qed

text \<open>
  C3 at the state after \<^verbatim>\<open>Initialize(); Enter(); Enter(); Exit(); Exit(); Enter();\<close>
  from program start.
\<close>

theorem reachable_invariant_witness:
  "run False [Initialize, Enter, Enter, Exit, Exit, Enter] startup =
     Inr \<lparr>criticalSectionInitialized = True, criticalSectionNesting = 1,
          criticalSection =
            \<lparr>constructed = True, RecursionCount = 1,
             calls = [CallInitialize, CallEnter, CallLeave, CallEnter]\<rparr>\<rparr> \<and>
   held_invariant
     \<lparr>criticalSectionInitialized = True, criticalSectionNesting = 1,
      criticalSection =
        \<lparr>constructed = True, RecursionCount = 1,
         calls = [CallInitialize, CallEnter, CallLeave, CallEnter]\<rparr>\<rparr> \<and>
   spec_invariant
     \<lparr>criticalSectionInitialized = True, criticalSectionNesting = 1,
      criticalSection =
        \<lparr>constructed = True, RecursionCount = 1,
         calls = [CallInitialize, CallEnter, CallLeave, CallEnter]\<rparr>\<rparr> \<and>
   no_overflow False [Initialize, Enter, Enter, Exit, Exit, Enter] startup"
proof -
  let ?s = "\<lparr>criticalSectionInitialized = True, criticalSectionNesting = 1,
      criticalSection =
        \<lparr>constructed = True, RecursionCount = 1,
         calls = [CallInitialize, CallEnter, CallLeave, CallEnter]\<rparr>\<rparr>"
  have r: "run False [Initialize, Enter, Enter, Exit, Exit, Enter] startup = Inr ?s"
    by (simp add: startup_def UtilCriticalSectionInit_def UtilCriticalSectionEnter_def
        UtilCriticalSectionExit_def assert_passes_def InitializeCriticalSection_def
        EnterCriticalSection_def LeaveCriticalSection_def)
  have l: "length [Initialize, Enter, Enter, Exit, Exit, Enter] < 2 ^ 32"
    by simp
  from reachable_invariant [OF r] l r show ?thesis
    by blast
qed

text \<open>
  Claim C3 as stated fails in the state reached by Initialize and \<open>2 ^ 32 + 1\<close> Enter
  calls: the counter has wrapped to 0 and the last Enter has acquired the lock a second
  time, so nesting is 1 with two outstanding acquisitions.
\<close>

theorem reachable_invariant_counterexample:
  "run False (Initialize # replicate (2 ^ 32 + 1) Enter) startup =
     Inr \<lparr>criticalSectionInitialized = True, criticalSectionNesting = 1,
          criticalSection =
            \<lparr>constructed = True, RecursionCount = 2,
             calls = [CallInitialize, CallEnter, CallEnter]\<rparr>\<rparr> \<and>
   \<not> spec_invariant
     \<lparr>criticalSectionInitialized = True, criticalSectionNesting = 1,
      criticalSection =
        \<lparr>constructed = True, RecursionCount = 2,
         calls = [CallInitialize, CallEnter, CallEnter]\<rparr>\<rparr>"
proof -
  let ?s = "UtilCriticalSectionInit startup"
  let ?t = "\<lparr>criticalSectionInitialized = True, criticalSectionNesting = 0,
      criticalSection =
        \<lparr>constructed = True, RecursionCount = 1, calls = [CallInitialize, CallEnter]\<rparr>\<rparr>"
  have v: "?s = \<lparr>criticalSectionInitialized = True, criticalSectionNesting = 0,
      criticalSection = \<lparr>constructed = True, RecursionCount = 0, calls = [CallInitialize]\<rparr>\<rparr>"
    by (simp add: UtilCriticalSectionInit_def startup_def InitializeCriticalSection_def)
  have "run False (replicate (2 ^ 32) Enter) ?s =
     Inr (?s\<lparr>criticalSection := EnterCriticalSection (criticalSection ?s),
            criticalSectionNesting := of_nat (2 ^ 32)\<rparr>)"
    by (intro enters_from_zero) (simp_all add: v)
  then have e: "run False (replicate (2 ^ 32) Enter) ?s = Inr ?t"
    by (simp add: v EnterCriticalSection_def)
  have "replicate (2 ^ 32 + 1) Enter = replicate (2 ^ 32) Enter @ [Enter]"
    by (rule replicate_last)
  then have "run False (replicate (2 ^ 32 + 1) Enter) ?s =
     Inr \<lparr>criticalSectionInitialized = True, criticalSectionNesting = 1,
          criticalSection =
            \<lparr>constructed = True, RecursionCount = 2,
             calls = [CallInitialize, CallEnter, CallEnter]\<rparr>\<rparr>"
    using e by (simp add: run_append Enter_initialized EnterCriticalSection_def)
  then show ?thesis
    by (simp add: spec_invariant_def)
qed

section \<open>Initialize and Terminate\<close>

text \<open>
  Claim C4. For every \<open>N \<ge> 1\<close> and every state, \<open>N\<close> Initialize calls in a row give
  exactly the state that one call gives, with the initialized flag true. The call that
  finds the module not initialised is the only effective one: it constructs the lock
  (one construction in the log), and immediately afterwards nesting is 0 and the lock is
  constructed and not held. A call on an initialised module changes nothing, so nesting
  is 0 and the lock is not held afterwards whenever no Enter was outstanding before.
\<close>

theorem Init_idempotent:
  assumes "1 \<le> N"
  shows "run NDEBUG (replicate N Initialize) s = Inr (UtilCriticalSectionInit s) \<and>
    (UtilCriticalSectionInit ^^ N) s = UtilCriticalSectionInit s \<and>
    criticalSectionInitialized (UtilCriticalSectionInit s) \<and>
    (\<not> criticalSectionInitialized s \<longrightarrow>
       UtilCriticalSectionInit s =
         s\<lparr>criticalSection := InitializeCriticalSection (criticalSection s),
           criticalSectionNesting := 0, criticalSectionInitialized := True\<rparr> \<and>
       criticalSectionNesting (UtilCriticalSectionInit s) = 0 \<and>
       \<not> held (criticalSection (UtilCriticalSectionInit s)) \<and>
       constructed (criticalSection (UtilCriticalSectionInit s)) \<and>
       calls (criticalSection (UtilCriticalSectionInit s)) =
         calls (criticalSection s) @ [CallInitialize]) \<and>
    (criticalSectionInitialized s \<longrightarrow> UtilCriticalSectionInit s = s) \<and>
    (\<not> criticalSectionInitialized s \<or>
     criticalSectionNesting s = 0 \<and> \<not> held (criticalSection s) \<longrightarrow>
       criticalSectionNesting (UtilCriticalSectionInit s) = 0 \<and>
       \<not> held (criticalSection (UtilCriticalSectionInit s)))"
proof -
  have again: "UtilCriticalSectionInit (UtilCriticalSectionInit t) = UtilCriticalSectionInit t"
    for t
    by (simp add: UtilCriticalSectionInit_def)
  have "run NDEBUG (replicate n Initialize) (UtilCriticalSectionInit s) =
          Inr (UtilCriticalSectionInit s)" for n
    by (induction n) (simp_all add: again)
  then have r: "run NDEBUG (replicate N Initialize) s = Inr (UtilCriticalSectionInit s)"
    using assms by (cases N) simp_all
  have "(UtilCriticalSectionInit ^^ n) (UtilCriticalSectionInit s) = UtilCriticalSectionInit s"
    for n
    by (induction n) (simp_all add: again)
  then have f: "(UtilCriticalSectionInit ^^ N) s = UtilCriticalSectionInit s"
    using assms by (cases N) (simp_all add: funpow_swap1)
  show ?thesis
    using r f by (simp add: UtilCriticalSectionInit_def InitializeCriticalSection_def held_def)
qed

text \<open>
  C4 for three Initialize calls at program start.
\<close>

theorem Init_idempotent_witness:
  "run False [Initialize, Initialize, Initialize] startup =
     Inr \<lparr>criticalSectionInitialized = True, criticalSectionNesting = 0,
          criticalSection =
            \<lparr>constructed = True, RecursionCount = 0, calls = [CallInitialize]\<rparr>\<rparr> \<and>
   UtilCriticalSectionInit startup =
     \<lparr>criticalSectionInitialized = True, criticalSectionNesting = 0,
      criticalSection = \<lparr>constructed = True, RecursionCount = 0, calls = [CallInitialize]\<rparr>\<rparr>"
proof -
  have v: "UtilCriticalSectionInit startup =
     \<lparr>criticalSectionInitialized = True, criticalSectionNesting = 0,
      criticalSection = \<lparr>constructed = True, RecursionCount = 0, calls = [CallInitialize]\<rparr>\<rparr>"
    by (simp add: UtilCriticalSectionInit_def startup_def InitializeCriticalSection_def)
  have r: "replicate 3 Initialize = [Initialize, Initialize, Initialize]"
    by (simp add: numeral_3_eq_3)
  have "(1::nat) \<le> 3"
    by simp
  from Init_idempotent [OF this, of False startup]
  have "run False (replicate 3 Initialize) startup = Inr (UtilCriticalSectionInit startup)"
    by (rule conjunct1)
  then have "run False [Initialize, Initialize, Initialize] startup =
     Inr \<lparr>criticalSectionInitialized = True, criticalSectionNesting = 0,
          criticalSection =
            \<lparr>constructed = True, RecursionCount = 0, calls = [CallInitialize]\<rparr>\<rparr>"
    unfolding r v .
  then show ?thesis
    using v by (rule conjI)
qed

text \<open>
  Claim C5. Terminate on a module that is not initialised leaves the whole state
  unchanged, the log of the lock included, so the lock is not destroyed again; Terminate
  on an initialised module with nesting 0 destroys the lock, leaves nesting at 0 and
  clears the initialized flag; and a second Terminate changes nothing more.
\<close>

theorem Terminate_idempotent:
  "(\<not> criticalSectionInitialized s \<longrightarrow>
      UtilCriticalSectionTerminate s = s \<and>
      calls (criticalSection (UtilCriticalSectionTerminate s)) = calls (criticalSection s)) \<and>
   (criticalSectionInitialized s \<and> criticalSectionNesting s = 0 \<longrightarrow>
      UtilCriticalSectionTerminate s =
        s\<lparr>criticalSectionInitialized := False,
          criticalSection := DeleteCriticalSection (criticalSection s)\<rparr> \<and>
      \<not> criticalSectionInitialized (UtilCriticalSectionTerminate s) \<and>
      criticalSectionNesting (UtilCriticalSectionTerminate s) = 0 \<and>
      \<not> constructed (criticalSection (UtilCriticalSectionTerminate s)) \<and>
      \<not> held (criticalSection (UtilCriticalSectionTerminate s)) \<and>
      calls (criticalSection (UtilCriticalSectionTerminate s)) =
        calls (criticalSection s) @ [CallDelete]) \<and>
   UtilCriticalSectionTerminate (UtilCriticalSectionTerminate s) =
     UtilCriticalSectionTerminate s"
  by (simp add: UtilCriticalSectionTerminate_def DeleteCriticalSection_def held_def)

text \<open>
  C5 at program start (not initialised) and in the state after one Initialize.
\<close>

theorem Terminate_idempotent_witness:
  "UtilCriticalSectionTerminate startup = startup \<and>
   UtilCriticalSectionTerminate
     \<lparr>criticalSectionInitialized = True, criticalSectionNesting = 0,
      criticalSection = \<lparr>constructed = True, RecursionCount = 0, calls = [CallInitialize]\<rparr>\<rparr> =
     \<lparr>criticalSectionInitialized = False, criticalSectionNesting = 0,
      criticalSection =
        \<lparr>constructed = False, RecursionCount = 0, calls = [CallInitialize, CallDelete]\<rparr>\<rparr>"
proof -
  let ?a = "\<lparr>criticalSectionInitialized = True, criticalSectionNesting = 0,
      criticalSection = \<lparr>constructed = True, RecursionCount = 0, calls = [CallInitialize]\<rparr>\<rparr>"
  have h: "\<not> criticalSectionInitialized startup"
    "criticalSectionInitialized ?a \<and> criticalSectionNesting ?a = 0"
    by (simp_all add: startup_def)
  from h Terminate_idempotent [of startup] Terminate_idempotent [of ?a]
  show ?thesis
    by (simp add: DeleteCriticalSection_def)
qed

text \<open>
  Claim C9. Terminate does not look at the nesting counter: in every initialised state,
  whatever the counter, it clears the flag, resets the counter to 0 and destroys the
  lock, and the destroy is its only call on the lock: nothing is released first.
\<close>

theorem Terminate_ignores_nesting:
  assumes "criticalSectionInitialized s"
  shows "UtilCriticalSectionTerminate s =
      s\<lparr>criticalSectionInitialized := False, criticalSectionNesting := 0,
        criticalSection := DeleteCriticalSection (criticalSection s)\<rparr> \<and>
    calls (criticalSection (UtilCriticalSectionTerminate s)) =
      calls (criticalSection s) @ [CallDelete] \<and>
    released (criticalSection (UtilCriticalSectionTerminate s)) =
      released (criticalSection s)"
  using assms
  by (simp add: UtilCriticalSectionTerminate_def DeleteCriticalSection_def released_def)

text \<open>
  C9 in a state with nesting 2 and the lock held.
\<close>

theorem Terminate_ignores_nesting_witness:
  "UtilCriticalSectionTerminate
     \<lparr>criticalSectionInitialized = True, criticalSectionNesting = 2,
      criticalSection =
        \<lparr>constructed = True, RecursionCount = 1, calls = [CallInitialize, CallEnter]\<rparr>\<rparr> =
     \<lparr>criticalSectionInitialized = False, criticalSectionNesting = 0,
      criticalSection =
        \<lparr>constructed = False, RecursionCount = 0,
         calls = [CallInitialize, CallEnter, CallDelete]\<rparr>\<rparr>"
proof -
  let ?a = "\<lparr>criticalSectionInitialized = True, criticalSectionNesting = 2,
      criticalSection =
        \<lparr>constructed = True, RecursionCount = 1, calls = [CallInitialize, CallEnter]\<rparr>\<rparr>"
  have "criticalSectionInitialized ?a"
    by simp
  from Terminate_ignores_nesting [OF this] show ?thesis
    by (simp add: DeleteCriticalSection_def)
qed

text \<open>
  Claim C8. Two modules that each initialise at startup and each terminate at shutdown,
  \<^verbatim>\<open>Initialize(); Initialize(); Terminate(); Terminate();\<close> from program start:
  the lock is constructed once and destroyed once over the whole sequence (by the first
  Initialize and the first Terminate).
\<close>

theorem two_modules:
  "run NDEBUG [Initialize, Initialize, Terminate, Terminate] startup =
     Inr \<lparr>criticalSectionInitialized = False, criticalSectionNesting = 0,
          criticalSection =
            \<lparr>constructed = False, RecursionCount = 0,
             calls = [CallInitialize, CallDelete]\<rparr>\<rparr> \<and>
   constructions \<lparr>constructed = False, RecursionCount = 0,
                  calls = [CallInitialize, CallDelete]\<rparr> = 1 \<and>
   destructions \<lparr>constructed = False, RecursionCount = 0,
                 calls = [CallInitialize, CallDelete]\<rparr> = 1 \<and>
   run NDEBUG [Initialize] startup =
     Inr \<lparr>criticalSectionInitialized = True, criticalSectionNesting = 0,
          criticalSection =
            \<lparr>constructed = True, RecursionCount = 0, calls = [CallInitialize]\<rparr>\<rparr> \<and>
   run NDEBUG [Initialize, Initialize] startup =
     Inr \<lparr>criticalSectionInitialized = True, criticalSectionNesting = 0,
          criticalSection =
            \<lparr>constructed = True, RecursionCount = 0, calls = [CallInitialize]\<rparr>\<rparr> \<and>
   run NDEBUG [Initialize, Initialize, Terminate] startup =
     Inr \<lparr>criticalSectionInitialized = False, criticalSectionNesting = 0,
          criticalSection =
            \<lparr>constructed = False, RecursionCount = 0,
             calls = [CallInitialize, CallDelete]\<rparr>\<rparr>"
  by (simp add: startup_def UtilCriticalSectionInit_def UtilCriticalSectionTerminate_def
      InitializeCriticalSection_def DeleteCriticalSection_def constructions_def
      destructions_def)

section \<open>Misuse\<close>

text \<open>
  Claim C6. On an initialised module with nesting 0, Exit in a release build returns
  the state unchanged: the counter is not decremented and the lock is not released. In a
  debug build \<^verbatim>\<open>assert(criticalSectionNesting > 0)\<close> aborts before anything is
  changed.
\<close>

theorem Exit_without_Enter:
  assumes "criticalSectionInitialized s" and "criticalSectionNesting s = 0"
  shows "UtilCriticalSectionExit True s = Inr s \<and>
    UtilCriticalSectionExit False s = Inl AssertionFailed"
  using assms by (simp add: UtilCriticalSectionExit_def assert_passes_def)

text \<open>
  C6 in the state after one Initialize.
\<close>

theorem Exit_without_Enter_witness:
  "UtilCriticalSectionExit True (UtilCriticalSectionInit startup) =
     Inr \<lparr>criticalSectionInitialized = True, criticalSectionNesting = 0,
          criticalSection =
            \<lparr>constructed = True, RecursionCount = 0, calls = [CallInitialize]\<rparr>\<rparr>"
proof -
  let ?s = "UtilCriticalSectionInit startup"
  have v: "?s = \<lparr>criticalSectionInitialized = True, criticalSectionNesting = 0,
      criticalSection = \<lparr>constructed = True, RecursionCount = 0, calls = [CallInitialize]\<rparr>\<rparr>"
    by (simp add: UtilCriticalSectionInit_def startup_def InitializeCriticalSection_def)
  have "criticalSectionInitialized ?s" and "criticalSectionNesting ?s = 0"
    by (simp_all add: v)
  from Exit_without_Enter [OF this] show ?thesis
    by (simp add: v)
qed

text \<open>
  Claim C7. On a module that is not initialised, Enter and Exit in a release build
  return the state unchanged, so no field is modified and no call is made on the lock.
  In a debug build both abort at \<^verbatim>\<open>assert(criticalSectionInitialized)\<close>.
\<close>

theorem uninitialized_noop:
  assumes "\<not> criticalSectionInitialized s"
  shows "UtilCriticalSectionEnter True s = Inr s \<and> UtilCriticalSectionExit True s = Inr s \<and>
    UtilCriticalSectionEnter False s = Inl AssertionFailed \<and>
    UtilCriticalSectionExit False s = Inl AssertionFailed"
  using assms
  by (simp add: UtilCriticalSectionEnter_def UtilCriticalSectionExit_def assert_passes_def)

text \<open>
  C7 at program start.
\<close>

theorem uninitialized_noop_witness:
  "UtilCriticalSectionEnter True startup = Inr startup \<and>
   UtilCriticalSectionExit True startup = Inr startup \<and>
   calls (criticalSection startup) = []"
proof -
  have "\<not> criticalSectionInitialized startup"
    by (simp add: startup_def)
  from uninitialized_noop [OF this] show ?thesis
    by (simp add: startup_def)
qed

section \<open>Overflow of the nesting counter\<close>

text \<open>
  Claim C10. From an initialised state with nesting 0, after \<open>k\<close> Enter calls in a row
  the counter is \<open>k mod 2 ^ 32\<close>; after exactly \<open>2 ^ 32\<close> of them it is 0 again while
  the lock, acquired once, is held; and the next Enter acquires the lock a second time.
\<close>

theorem nesting_wraps:
  assumes "criticalSectionInitialized s" and "criticalSectionNesting s = 0"
  shows "(\<forall>k. \<exists>s'. run NDEBUG (replicate k Enter) s = Inr s' \<and>
            unat (criticalSectionNesting s') = k mod 2 ^ 32) \<and>
    run NDEBUG (replicate (2 ^ 32) Enter) s =
      Inr (s\<lparr>criticalSection := EnterCriticalSection (criticalSection s),
             criticalSectionNesting := 0\<rparr>) \<and>
    held (EnterCriticalSection (criticalSection s)) \<and>
    run NDEBUG (replicate (2 ^ 32 + 1) Enter) s =
      Inr (s\<lparr>criticalSection :=
               EnterCriticalSection (EnterCriticalSection (criticalSection s)),
             criticalSectionNesting := 1\<rparr>) \<and>
    calls (EnterCriticalSection (EnterCriticalSection (criticalSection s))) =
      calls (criticalSection s) @ [CallEnter, CallEnter] \<and>
    RecursionCount (EnterCriticalSection (EnterCriticalSection (criticalSection s))) =
      RecursionCount (criticalSection s) + 2"
proof -
  have a: "\<exists>s'. run NDEBUG (replicate k Enter) s = Inr s' \<and>
            unat (criticalSectionNesting s') = k mod 2 ^ 32" for k
    using enters_nesting [OF assms(1), of NDEBUG k] assms(2)
    by (auto simp: unat_of_nat)
  have "run NDEBUG (replicate (2 ^ 32) Enter) s =
     Inr (s\<lparr>criticalSection := EnterCriticalSection (criticalSection s),
            criticalSectionNesting := of_nat (2 ^ 32)\<rparr>)"
    using assms by (intro enters_from_zero) simp_all
  then have b: "run NDEBUG (replicate (2 ^ 32) Enter) s =
     Inr (s\<lparr>criticalSection := EnterCriticalSection (criticalSection s),
            criticalSectionNesting := 0\<rparr>)"
    by simp
  have "replicate (2 ^ 32 + 1) Enter = replicate (2 ^ 32) Enter @ [Enter]"
    by (rule replicate_last)
  then have c: "run NDEBUG (replicate (2 ^ 32 + 1) Enter) s =
      Inr (s\<lparr>criticalSection :=
               EnterCriticalSection (EnterCriticalSection (criticalSection s)),
             criticalSectionNesting := 1\<rparr>)"
    using b assms(1) by (simp add: run_append Enter_initialized)
  show ?thesis
    using a b c by (simp add: held_def EnterCriticalSection_def)
qed

text \<open>
  C10 from the state after one Initialize at program start.
\<close>

theorem nesting_wraps_witness:
  "run True (replicate (2 ^ 32) Enter) (UtilCriticalSectionInit startup) =
     Inr \<lparr>criticalSectionInitialized = True, criticalSectionNesting = 0,
          criticalSection =
            \<lparr>constructed = True, RecursionCount = 1,
             calls = [CallInitialize, CallEnter]\<rparr>\<rparr> \<and>
   run True (replicate (2 ^ 32 + 1) Enter) (UtilCriticalSectionInit startup) =
     Inr \<lparr>criticalSectionInitialized = True, criticalSectionNesting = 1,
          criticalSection =
            \<lparr>constructed = True, RecursionCount = 2,
             calls = [CallInitialize, CallEnter, CallEnter]\<rparr>\<rparr>"
proof -
  let ?s = "UtilCriticalSectionInit startup"
  have v: "?s = \<lparr>criticalSectionInitialized = True, criticalSectionNesting = 0,
      criticalSection = \<lparr>constructed = True, RecursionCount = 0, calls = [CallInitialize]\<rparr>\<rparr>"
    by (simp add: UtilCriticalSectionInit_def startup_def InitializeCriticalSection_def)
  have h: "criticalSectionInitialized ?s" "criticalSectionNesting ?s = 0"
    by (simp_all add: v)
  note t = nesting_wraps [OF h, of True]
  from t have a: "run True (replicate (2 ^ 32) Enter) ?s =
      Inr (?s\<lparr>criticalSection := EnterCriticalSection (criticalSection ?s),
             criticalSectionNesting := 0\<rparr>)"
    by blast
  from t have b: "run True (replicate (2 ^ 32 + 1) Enter) ?s =
      Inr (?s\<lparr>criticalSection :=
               EnterCriticalSection (EnterCriticalSection (criticalSection ?s)),
             criticalSectionNesting := 1\<rparr>)"
    by blast
  show ?thesis
    using a b unfolding v by (simp add: EnterCriticalSection_def)
qed

end
